theory Spec2Isabelle
  imports Complex_Main
begin

section \<open>Text and cells\<close>

text \<open>
  The program is \<^verbatim>\<open>src/app_capgemini.py\<close>: a pandas table of candidates kept in the
  session, edited in a grid and written back to a remote CSV file. Python names that
  start with an underscore lose it here (\<^verbatim>\<open>_key\<close> is \<open>key\<close>, the column
  \<^verbatim>\<open>_k\<close> is the field \<open>k\<close>).

  Strings are \<open>char list\<close>. \<^verbatim>\<open>str.strip()\<close> removes the white space of Python at
  both ends; on the ASCII range that is tab, line feed, vertical tab, form feed,
  carriage return, the four separators 0x1C to 0x1F and the blank.
  \<^verbatim>\<open>str.lower()\<close> is taken on the ASCII letters; other characters are kept.
\<close>

definition is_space :: "char \<Rightarrow> bool" where
  "is_space c = (c \<in> set [CHR 0x09, CHR 0x0A, CHR 0x0B, CHR 0x0C, CHR 0x0D,
                            CHR 0x1C, CHR 0x1D, CHR 0x1E, CHR 0x1F, CHR 0x20])"

definition str_strip :: "string \<Rightarrow> string" where
  "str_strip s = rev (dropWhile is_space (rev (dropWhile is_space s)))"

definition lower_char :: "char \<Rightarrow> char" where
  "lower_char c =
     (case map_of (zip ''ABCDEFGHIJKLMNOPQRSTUVWXYZ'' ''abcdefghijklmnopqrstuvwxyz'') c of
        Some d \<Rightarrow> d
      | None \<Rightarrow> c)"

definition str_lower :: "string \<Rightarrow> string" where
  "str_lower s = map lower_char s"

text \<open>
  A cell of a pandas column as the program meets it: a string, an integer, a boolean
  or the missing value NaN (what \<^verbatim>\<open>read_csv\<close> leaves for an empty field). A float
  other than NaN is not modelled; its text always carries a decimal point or an exponent.
\<close>

datatype cell = CStr string | CInt int | CBool bool | CNaN

function str_nat :: "nat \<Rightarrow> string" where
  "str_nat n = (if n < 10 then [''0123456789'' ! n]
                else str_nat (n div 10) @ [''0123456789'' ! (n mod 10)])"
  by pat_completeness auto
termination
  by (relation "measure (\<lambda>n. n)") auto

definition str_int :: "int \<Rightarrow> string" where
  "str_int i = (if i < 0 then CHR ''-'' # str_nat (nat (- i)) else str_nat (nat i))"

text \<open>\<^verbatim>\<open>astype(str)\<close> on one cell.\<close>

fun astype_str :: "cell \<Rightarrow> string" where
  "astype_str (CStr s) = s"
| "astype_str (CInt i) = str_int i"
| "astype_str (CBool b) = (if b then ''True'' else ''False'')"
| "astype_str CNaN = ''nan''"

text \<open>\<^verbatim>\<open>fillna("")\<close> on one cell.\<close>

fun fillna_empty :: "cell \<Rightarrow> cell" where
  "fillna_empty CNaN = CStr []"
| "fillna_empty c = c"

section \<open>Rows and the identity key\<close>

text \<open>
  One row of the canonical table: three identity cells and four boolean flags
  (\<^verbatim>\<open>FIRST, LAST, FILE\<close> and \<^verbatim>\<open>BOOL_COLS\<close>).
\<close>

record candidate =
  first_name :: cell
  last_name :: cell
  file_name :: cell
  seen :: bool
  intend_view :: bool
  cv_saved :: bool
  contacted :: bool

text \<open>
  \<^verbatim>\<open>_key(df)\<close> works on whole columns; \<open>key\<close> is what it computes for one row. The
  first and last name are stripped and lowercased, the file URL is stripped only.
\<close>

definition key :: "'a candidate_scheme \<Rightarrow> string" where
  "key r =
     str_lower (str_strip (astype_str (fillna_empty (first_name r)))) @ ''||'' @
     str_lower (str_strip (astype_str (fillna_empty (last_name r)))) @ ''||'' @
     str_strip (astype_str (fillna_empty (file_name r)))"

section \<open>Tables and the schema\<close>

text \<open>
  The column labels of the program. \<^verbatim>\<open>INT\<close> is \<open>INT_COL\<close> here, the name being taken.
\<close>

definition FIRST :: string where "FIRST = ''first_name''"
definition LAST :: string where "LAST = ''last_name''"
definition FILE :: string where "FILE = ''file_name''"
definition SEEN :: string where "SEEN = ''seen''"
definition INT_COL :: string where "INT_COL = ''intend_view''"
definition SAVE :: string where "SAVE = ''cv_saved''"
definition CONT :: string where "CONT = ''contacted''"

definition BOOL_COLS :: "string list" where
  "BOOL_COLS = [SEEN, INT_COL, SAVE, CONT]"

definition ALL_COLS :: "string list" where
  "ALL_COLS = [FIRST, LAST, FILE] @ BOOL_COLS"

text \<open>
  The three classes of exception the program tells apart when it writes:
  \<^verbatim>\<open>dropbox.exceptions.AuthError\<close>, \<^verbatim>\<open>dropbox.exceptions.ApiError\<close> and any other
  \<^verbatim>\<open>Exception\<close>, each with its message.
\<close>

datatype exn = AuthError string | ApiError string | OtherError string

fun exn_str :: "exn \<Rightarrow> string" where
  "exn_str (AuthError m) = m"
| "exn_str (ApiError m) = m"
| "exn_str (OtherError m) = m"

text \<open>
  A raw pandas frame: the length of its index and its columns in order, each a label
  and the cells of the column. pandas allows a label twice; \<^verbatim>\<open>read_csv\<close> never
  produces that, and the frames the program builds have each label once.
\<close>

record dataframe =
  nrows :: nat
  cols :: "(string \<times> cell list) list"

text \<open>\<^verbatim>\<open>c in df\<close>.\<close>

definition has_col :: "string \<Rightarrow> dataframe \<Rightarrow> bool" where
  "has_col c df = (c \<in> set (map fst (cols df)))"

text \<open>
  \<^verbatim>\<open>df[c] = v\<close>: a new label is appended as the last column, an existing one keeps
  its place.
\<close>

definition set_col :: "string \<Rightarrow> cell list \<Rightarrow> dataframe \<Rightarrow> dataframe" where
  "set_col c v df =
     (if has_col c df
      then df\<lparr>cols := map (\<lambda>p. if fst p = c then (c, v) else p) (cols df)\<rparr>
      else df\<lparr>cols := cols df @ [(c, v)]\<rparr>)"

text \<open>The dictionary given to \<^verbatim>\<open>ser.map\<close>.\<close>

definition flag_vocabulary :: "(string \<times> bool) list" where
  "flag_vocabulary =
     [(''true'', True), (''1'', True), (''yes'', True), (''y'', True),
      (''false'', False), (''0'', False), (''no'', False), (''n'', False)]"

text \<open>
  One cell through \<^verbatim>\<open>astype(str).str.strip().str.lower()\<close>, the dictionary,
  \<^verbatim>\<open>fillna(False)\<close> and \<^verbatim>\<open>astype(bool)\<close>.
\<close>

definition to_flag :: "cell \<Rightarrow> cell" where
  "to_flag x =
     (case map_of flag_vocabulary (str_lower (str_strip (astype_str x))) of
        Some b \<Rightarrow> CBool b
      | None \<Rightarrow> CBool False)"

text \<open>The first loop of \<^verbatim>\<open>_ensure_schema\<close>, one label.\<close>

definition fill_identity :: "string \<Rightarrow> dataframe \<Rightarrow> dataframe" where
  "fill_identity c df =
     (if \<not> has_col c df then set_col c (replicate (nrows df) (CStr [])) df else df)"

text \<open>
  The second loop, one label. With the label on two columns \<^verbatim>\<open>df[c]\<close> is a frame,
  which has no \<^verbatim>\<open>.str\<close>: the attribute error of Python is the \<open>Inl\<close> here.
\<close>

definition coerce_flag :: "string \<Rightarrow> dataframe \<Rightarrow> exn + dataframe" where
  "coerce_flag c df =
     (if \<not> has_col c df then Inr (set_col c (replicate (nrows df) (CBool False)) df)
      else (case filter (\<lambda>p. fst p = c) (cols df) of
              [p] \<Rightarrow> Inr (set_col c (map to_flag (snd p)) df)
            | _ \<Rightarrow> Inl (OtherError ''DataFrame object has no attribute str'')))"

fun coerce_flags :: "string list \<Rightarrow> dataframe \<Rightarrow> exn + dataframe" where
  "coerce_flags [] df = Inr df"
| "coerce_flags (c # cs) df =
     (case coerce_flag c df of Inl e \<Rightarrow> Inl e | Inr df' \<Rightarrow> coerce_flags cs df')"

text \<open>\<^verbatim>\<open>df[[c1, c2, ...]]\<close>: the columns of each label, in the order asked.\<close>

definition select_cols :: "string list \<Rightarrow> dataframe \<Rightarrow> dataframe" where
  "select_cols cs df =
     df\<lparr>cols := concat (map (\<lambda>c. filter (\<lambda>p. fst p = c) (cols df)) cs)\<rparr>"

definition ensure_schema :: "dataframe \<Rightarrow> exn + dataframe" where
  "ensure_schema df =
     (case coerce_flags BOOL_COLS (fold fill_identity [FIRST, LAST, FILE] df) of
        Inl e \<Rightarrow> Inl e
      | Inr df' \<Rightarrow> Inr (select_cols ALL_COLS df'))"

text \<open>Frames whose labels are all different.\<close>

definition distinct_labels :: "dataframe \<Rightarrow> bool" where
  "distinct_labels df = distinct (map fst (cols df))"

text \<open>The column of a label, when there is one.\<close>

definition column :: "dataframe \<Rightarrow> string \<Rightarrow> cell list option" where
  "column df c = map_of (cols df) c"

text \<open>
  In the words of the specification (section 4.1), to compare \<^verbatim>\<open>_ensure_schema\<close>
  with: what the normaliser is to leave in an identity column and in a flag column of a
  frame. An absent identity column is filled with empty strings and a present one is kept;
  an absent flag column is \<^verbatim>\<open>False\<close> and a present one is coerced cell by cell.
\<close>

definition identity_column :: "dataframe \<Rightarrow> string \<Rightarrow> cell list" where
  "identity_column fr c =
     (case column fr c of None \<Rightarrow> replicate (nrows fr) (CStr []) | Some col \<Rightarrow> col)"

definition flag_column :: "dataframe \<Rightarrow> string \<Rightarrow> cell list" where
  "flag_column fr c =
     (case column fr c of None \<Rightarrow> replicate (nrows fr) (CBool False)
      | Some col \<Rightarrow> map to_flag col)"

text \<open>The canonical table of the session as a frame.\<close>

definition to_frame :: "candidate list \<Rightarrow> dataframe" where
  "to_frame rs =
     \<lparr>nrows = length rs,
      cols = [(FIRST, map first_name rs), (LAST, map last_name rs), (FILE, map file_name rs),
              (SEEN, map (\<lambda>r. CBool (seen r)) rs),
              (INT_COL, map (\<lambda>r. CBool (intend_view r)) rs),
              (SAVE, map (\<lambda>r. CBool (cv_saved r)) rs),
              (CONT, map (\<lambda>r. CBool (contacted r)) rs)]\<rparr>"

section \<open>The diff of two views\<close>

text \<open>A row of \<^verbatim>\<open>curr_flags\<close> or of the snapshot: the seven columns and \<^verbatim>\<open>_k\<close>.\<close>

record krow = candidate +
  k :: string

definition with_key :: "candidate \<Rightarrow> krow" where
  "with_key r =
     \<lparr>first_name = first_name r, last_name = last_name r, file_name = file_name r,
      seen = seen r, intend_view = intend_view r, cv_saved = cv_saved r,
      contacted = contacted r, k = key r\<rparr>"

text \<open>
  \<^verbatim>\<open>left.merge(right, on="_k", how="left")\<close>: the rows of the left table in their order,
  each once for every row of the right table with its key, in the order of the right
  table, and once with nothing beside it when no row of the right table has its key.
\<close>

definition match_row ::
  "('a \<Rightarrow> string) \<Rightarrow> ('b \<Rightarrow> string) \<Rightarrow> 'b list \<Rightarrow> 'a \<Rightarrow> ('a \<times> 'b option) list" where
  "match_row ka kb right l =
     (case filter (\<lambda>r. kb r = ka l) right of
        [] \<Rightarrow> [(l, None)]
      | m # ms \<Rightarrow> map (\<lambda>r. (l, Some r)) (m # ms))"

definition merge_left ::
  "('a \<Rightarrow> string) \<Rightarrow> ('b \<Rightarrow> string) \<Rightarrow> 'a list \<Rightarrow> 'b list \<Rightarrow> ('a \<times> 'b option) list" where
  "merge_left ka kb left right = concat (map (match_row ka kb right) left)"

text \<open>
  The mask of \<^verbatim>\<open>_diff_rows\<close> on one merged row. The old flag of a row with no match is
  NaN, and a boolean is different from NaN.
\<close>

definition changed :: "krow \<times> krow option \<Rightarrow> bool" where
  "changed p =
     (Some (seen (fst p)) \<noteq> map_option seen (snd p) \<or>
      Some (intend_view (fst p)) \<noteq> map_option intend_view (snd p) \<or>
      Some (cv_saved (fst p)) \<noteq> map_option cv_saved (snd p) \<or>
      Some (contacted (fst p)) \<noteq> map_option contacted (snd p))"

text \<open>\<^verbatim>\<open>_diff_rows(prev, curr)\<close>, with \<open>cur\<close> for \<^verbatim>\<open>curr\<close>; \<open>None\<close> is the snapshot not
  taken yet.\<close>

definition diff_rows :: "krow list option \<Rightarrow> krow list \<Rightarrow> krow list" where
  "diff_rows prev cur =
     (case prev of
        None \<Rightarrow> []
      | Some p \<Rightarrow> if p = [] then [] else map fst (filter changed (merge_left k k cur p)))"

text \<open>
  In the words of the specification (section 4.4), to compare \<^verbatim>\<open>_diff_rows\<close> with: a
  row of the view differs in a flag from a row of the snapshot; and a row of the view is
  changed against a snapshot when a row of the snapshot with its key differs from it in a
  flag, or when no row of the snapshot has its key.
\<close>

definition flags_differ :: "krow \<Rightarrow> krow \<Rightarrow> bool" where
  "flags_differ r p =
     (seen r \<noteq> seen p \<or> intend_view r \<noteq> intend_view p \<or>
      cv_saved r \<noteq> cv_saved p \<or> contacted r \<noteq> contacted p)"

definition row_changed :: "krow list \<Rightarrow> krow \<Rightarrow> bool" where
  "row_changed prev r =
     ((\<exists>p \<in> set prev. k p = k r \<and> flags_differ r p) \<or> k r \<notin> k ` set prev)"

text \<open>Two rows for examples, after the scenarios of the specification.\<close>

definition jane :: candidate where
  "jane = \<lparr>first_name = CStr ''Jane'', last_name = CStr ''Doe'',
            file_name = CStr ''https://x/cv.pdf'', seen = False, intend_view = False,
            cv_saved = False, contacted = False\<rparr>"

definition amir :: candidate where
  "amir = \<lparr>first_name = CStr ''Amir'', last_name = CStr ''Khan'',
            file_name = CStr ''https://x/amir.pdf'', seen = False, intend_view = False,
            cv_saved = False, contacted = False\<rparr>"

section \<open>The optimistic merge\<close>

text \<open>
  Lines 295 to 303: the changed rows are merged into the table of the session on the
  key, and a flag is taken from the changed row where there is one
  (\<^verbatim>\<open>combine_first\<close>).
\<close>

definition take_flags :: "candidate \<times> krow option \<Rightarrow> candidate" where
  "take_flags p =
     (case snd p of
        None \<Rightarrow> fst p
      | Some d \<Rightarrow> (fst p)\<lparr>seen := seen d, intend_view := intend_view d,
                            cv_saved := cv_saved d, contacted := contacted d\<rparr>)"

definition optimistic_merge :: "candidate list \<Rightarrow> krow list \<Rightarrow> candidate list" where
  "optimistic_merge full changed_rows = map take_flags (merge_left key k full changed_rows)"

section \<open>The remote store\<close>

text \<open>
  The Dropbox service is outside the program. A world holds the client \<^verbatim>\<open>DBX\<close>
  (\<open>None\<close> when no client could be built; \<open>Some 0\<close> is the client that
  \<^verbatim>\<open>_build_dbx_client\<close> built and caches, \<open>Some n\<close> with \<open>n > 0\<close> a client made
  from the token that the n-th call of the log returned), the write path read from the
  secrets (\<open>None\<close> when the secret is missing), the keys present in
  \<^verbatim>\<open>st.secrets\<close>, the reply the service gives to the n-th call made to it, and the
  calls made so far. \<open>Refresh\<close> is the request to the token endpoint.
\<close>

datatype reply = Ok | Raise exn

datatype call = CreateFolder string | Upload dataframe string | Refresh

record world =
  DBX :: "nat option"
  STATE_DBX_PATH :: "string option"
  secrets :: "string list"
  replies :: "nat \<Rightarrow> reply"
  calls :: "call list"

definition remote_call :: "call \<Rightarrow> world \<Rightarrow> reply \<times> world" where
  "remote_call c w = (replies w (length (calls w)), w\<lparr>calls := calls w @ [c]\<rparr>)"

text \<open>\<^verbatim>\<open>path.rstrip("/")\<close> and \<^verbatim>\<open>posixpath.dirname\<close>.\<close>

definition rstrip_slash :: "string \<Rightarrow> string" where
  "rstrip_slash s = rev (dropWhile (\<lambda>c. c = CHR ''/'') (rev s))"

definition dirname :: "string \<Rightarrow> string" where
  "dirname p =
     (let head = rev (dropWhile (\<lambda>c. c \<noteq> CHR ''/'') (rev p))
      in if head \<noteq> [] \<and> \<not> list_all (\<lambda>c. c = CHR ''/'') head then rstrip_slash head else head)"

text \<open>
  \<^verbatim>\<open>_ensure_folder_tree\<close>: the result is the exception that leaves it, if any. A
  missing path has no \<^verbatim>\<open>rstrip\<close>; an \<^verbatim>\<open>ApiError\<close> of the folder call is swallowed.
\<close>

definition ensure_folder_tree :: "string option \<Rightarrow> world \<Rightarrow> exn option \<times> world" where
  "ensure_folder_tree path w =
     (case path of
        None \<Rightarrow> (Some (OtherError ''NoneType object has no attribute rstrip''), w)
      | Some p \<Rightarrow>
          (let parent = dirname (rstrip_slash p)
           in if parent = [] \<or> parent = ''/'' then (None, w)
              else (case remote_call (CreateFolder parent) w of
                      (Ok, w') \<Rightarrow> (None, w')
                    | (Raise (ApiError m), w') \<Rightarrow> (None, w')
                    | (Raise e, w') \<Rightarrow> (Some e, w'))))"

text \<open>
  The two statements of each \<^verbatim>\<open>try\<close> body of \<^verbatim>\<open>_upload_with_auto_refresh\<close>:
  the folder, then \<^verbatim>\<open>files_upload\<close>.
\<close>

definition upload_once :: "dataframe \<Rightarrow> string option \<Rightarrow> world \<Rightarrow> exn option \<times> world" where
  "upload_once data path w =
     (case ensure_folder_tree path w of
        (Some e, w') \<Rightarrow> (Some e, w')
      | (None, w') \<Rightarrow>
          (case path of
             None \<Rightarrow> (Some (OtherError ''NoneType object has no attribute rstrip''), w')
           | Some p \<Rightarrow>
               (case remote_call (Upload data p) w' of
                  (Ok, w'') \<Rightarrow> (None, w'')
                | (Raise e, w'') \<Rightarrow> (Some e, w''))))"

text \<open>
  \<^verbatim>\<open>_access_token_from_refresh\<close>: \<^verbatim>\<open>None\<close> at once, with no request, when one of
  the three secrets of the refresh flow is missing; otherwise one request to the token
  endpoint, which returns a token (named by the place of the request in the log) or
  raises (\<^verbatim>\<open>requests.post\<close>, \<^verbatim>\<open>raise_for_status\<close>).
\<close>

definition need :: "string list" where
  "need = [''DROPBOX_APP_KEY'', ''DROPBOX_APP_SECRET'', ''DROPBOX_REFRESH_TOKEN'']"

definition refresh_configured :: "world \<Rightarrow> bool" where
  "refresh_configured w = list_all (\<lambda>k. k \<in> set (secrets w)) need"

definition access_token_from_refresh :: "world \<Rightarrow> (exn + nat option) \<times> world" where
  "access_token_from_refresh w =
     (if \<not> refresh_configured w then (Inr None, w)
      else (case remote_call Refresh w of
              (Ok, w') \<Rightarrow> (Inr (Some (length (calls w'))), w')
            | (Raise e, w') \<Rightarrow> (Inl e, w')))"

text \<open>
  \<^verbatim>\<open>DBX = _refresh_dbx_client()\<close>. Without a token the function returns
  \<^verbatim>\<open>_build_dbx_client()\<close>, which is cached: it has returned the client 0 at start
  (\<^verbatim>\<open>write_state_df\<close> goes on only when \<^verbatim>\<open>DBX\<close> is not \<^verbatim>\<open>None\<close>) and returns
  it again without running. With a token a new client is made from it. The result is the
  exception that leaves the function, if any.
\<close>

definition refresh_dbx_client :: "world \<Rightarrow> exn option \<times> world" where
  "refresh_dbx_client w =
     (case access_token_from_refresh w of
        (Inl e, w') \<Rightarrow> (Some e, w')
      | (Inr None, w') \<Rightarrow> (None, w'\<lparr>DBX := Some 0\<rparr>)
      | (Inr (Some tok), w') \<Rightarrow> (None, w'\<lparr>DBX := Some tok\<rparr>))"

definition upload_with_auto_refresh ::
  "dataframe \<Rightarrow> string option \<Rightarrow> world \<Rightarrow> (bool \<times> string option) \<times> world" where
  "upload_with_auto_refresh data path w =
     (case upload_once data path w of
        (None, w1) \<Rightarrow> ((True, None), w1)
      | (Some (AuthError m), w1) \<Rightarrow>
          (case refresh_dbx_client w1 of
             (Some e2, w2) \<Rightarrow> ((False, Some (''AuthError after refresh: '' @ exn_str e2)), w2)
           | (None, w2) \<Rightarrow>
               (case upload_once data path w2 of
                  (None, w3) \<Rightarrow> ((True, None), w3)
                | (Some e2, w3) \<Rightarrow>
                    ((False, Some (''AuthError after refresh: '' @ exn_str e2)), w3)))
      | (Some (ApiError m), w1) \<Rightarrow> ((False, Some (''ApiError: '' @ m)), w1)
      | (Some (OtherError m), w1) \<Rightarrow> ((False, Some (''Write error: '' @ m)), w1))"

text \<open>
  \<^verbatim>\<open>astype(int)\<close> on the flag columns; after \<^verbatim>\<open>_ensure_schema\<close> their cells are
  booleans. The CSV text of the frame is not modelled: the frame itself is what is
  uploaded.
\<close>

fun astype_int :: "cell \<Rightarrow> cell" where
  "astype_int (CBool b) = CInt (if b then 1 else 0)"
| "astype_int c = c"

definition flags_astype_int :: "dataframe \<Rightarrow> dataframe" where
  "flags_astype_int df =
     df\<lparr>cols := map (\<lambda>p. if fst p \<in> set BOOL_COLS then (fst p, map astype_int (snd p)) else p)
                    (cols df)\<rparr>"

text \<open>
  \<^verbatim>\<open>write_state_df\<close>. \<^verbatim>\<open>_ensure_schema\<close> is called outside every \<^verbatim>\<open>try\<close>, so what
  it raises leaves the function: the \<open>Inl\<close>.
\<close>

definition write_state_df :: "dataframe \<Rightarrow> world \<Rightarrow> exn + ((bool \<times> string option) \<times> world)" where
  "write_state_df full_df w =
     (case DBX w of
        None \<Rightarrow> Inr ((False, Some ''Dropbox not configured''), w)
      | Some c \<Rightarrow>
          (case ensure_schema full_df of
             Inl e \<Rightarrow> Inl e
           | Inr out \<Rightarrow> Inr (upload_with_auto_refresh (flags_astype_int out) (STATE_DBX_PATH w) w)))"






definition refresh_fails_world :: world where
  "refresh_fails_world =
     \<lparr>DBX = Some 0, STATE_DBX_PATH = Some ''/state.csv'',
      secrets = [''STATE_DBX_PATH_CAPGEMINI'', ''DROPBOX_APP_KEY'', ''DROPBOX_APP_SECRET'',
                 ''DROPBOX_REFRESH_TOKEN''],
      replies = (\<lambda>n. if n = 0 then Raise (AuthError ''expired_access_token'')
                       else Raise (OtherError ''401 Client Error'')),
      calls = []\<rparr>"


section \<open>The session and the autosave pass\<close>

text \<open>
  The part of \<^verbatim>\<open>st.session_state\<close> the pass reads and writes. \<open>snapshot_all\<close> is
  \<open>None\<close> while the key \<^verbatim>\<open>snapshot_all\<close> is not in the session. Times are real
  numbers of seconds.
\<close>

record session =
  df :: "candidate list"
  last_save_ts :: real
  snapshot_all :: "krow list option"
  autosave :: bool

definition AUTOSAVE_DEBOUNCE_SEC :: real where
  "AUTOSAVE_DEBOUNCE_SEC = 0.35"

text \<open>What the pass shows: \<^verbatim>\<open>st.toast\<close> with the count, or \<^verbatim>\<open>st.error\<close>.\<close>

datatype notice = Toast nat | ErrorBox string

fun fmt_err :: "string option \<Rightarrow> string" where
  "fmt_err None = ''None''"
| "fmt_err (Some m) = m"

text \<open>
  Lines 269 to 320, one pass of the script from the table the grid returns
  (\<open>edited\<close>) at the time \<open>now\<close> that \<^verbatim>\<open>time.time()\<close> gives. \<open>sync_block\<close> is
  the block of lines 291 to 316; \<open>autosave_pass\<close> is the diff before it and the first
  snapshot after it. An exception leaving \<^verbatim>\<open>write_state_df\<close> would end the pass.
\<close>

definition sync_block ::
  "real \<Rightarrow> krow list \<Rightarrow> krow list \<Rightarrow> session \<Rightarrow> world \<Rightarrow>
   exn + (session \<times> world \<times> notice option)" where
  "sync_block now curr_flags changed_rows s w =
     (if autosave s \<and> changed_rows \<noteq> [] then
        (if now - last_save_ts s \<ge> AUTOSAVE_DEBOUNCE_SEC then
           (let full = optimistic_merge (df s) changed_rows;
                backup = df s;
                s1 = s\<lparr>df := full\<rparr>
            in case write_state_df (to_frame full) w of
                 Inl e \<Rightarrow> Inl e
               | Inr ((ok, err), w') \<Rightarrow>
                   (let s2 = s1\<lparr>last_save_ts := now\<rparr>
                    in if ok
                       then Inr (s2\<lparr>snapshot_all := Some curr_flags\<rparr>, w',
                                 Some (Toast (length changed_rows)))
                       else Inr (s2\<lparr>df := backup\<rparr>, w',
                                 Some (ErrorBox (''Auto-save failed: '' @ fmt_err err)))))
         else Inr (s, w, None))
      else Inr (s, w, None))"

definition autosave_pass ::
  "real \<Rightarrow> candidate list \<Rightarrow> session \<Rightarrow> world \<Rightarrow> exn + (session \<times> world \<times> notice option)" where
  "autosave_pass now edited s w =
     (let curr_flags = map with_key edited;
          prev_flags = snapshot_all s;
          changed_rows = diff_rows prev_flags curr_flags
      in case sync_block now curr_flags changed_rows s w of
           Inl e \<Rightarrow> Inl e
         | Inr (s', w', n) \<Rightarrow>
             Inr (if snapshot_all s' = None then s'\<lparr>snapshot_all := Some curr_flags\<rparr> else s',
                  w', n))"

text \<open>
  What is seen of a pass: the session it leaves, the calls made to the service and the
  notice shown. Two passes in a row, the second on what the first leaves.
\<close>

definition pass_observed ::
  "exn + (session \<times> world \<times> notice option) \<Rightarrow> exn + (session \<times> call list \<times> notice option)" where
  "pass_observed r = (case r of Inl e \<Rightarrow> Inl e | Inr (s, w, n) \<Rightarrow> Inr (s, calls w, n))"

definition two_passes ::
  "real \<Rightarrow> candidate list \<Rightarrow> real \<Rightarrow> candidate list \<Rightarrow> session \<Rightarrow> world \<Rightarrow>
   exn + (session \<times> world \<times> notice option)" where
  "two_passes t1 e1 t2 e2 s w =
     (case autosave_pass t1 e1 s w of
        Inl e \<Rightarrow> Inl e
      | Inr (s1, w1, n1) \<Rightarrow> autosave_pass t2 e2 s1 w1)"

text \<open>
  For examples: a world where every call is accepted; the session after the first draw of
  the table of Jane Doe and Amir Khan; and the session with the snapshot of a view
  filtered to Jane Doe, as two saves under the search \<^verbatim>\<open>doe\<close> leave it (Jane Doe
  ticked, then unticked), the last at time 1000.
\<close>

definition ok_world :: world where
  "ok_world = \<lparr>DBX = Some 0, STATE_DBX_PATH = Some ''/state.csv'',
                secrets = [''STATE_DBX_PATH_CAPGEMINI'', ''DROPBOX_ACCESS_TOKEN''], replies = (\<lambda>n. Ok), calls = []\<rparr>"

definition s_saved :: session where
  "s_saved = \<lparr>df = [jane, amir], last_save_ts = 0,
              snapshot_all = Some [with_key jane, with_key amir], autosave = True\<rparr>"

definition s_filtered :: session where
  "s_filtered = \<lparr>df = [jane, amir], last_save_ts = 1000,
                 snapshot_all = Some [with_key jane], autosave = True\<rparr>"

section \<open>Facts about text\<close>










section \<open>Facts about frames and the schema\<close>

lemma has_col_column: "has_col c fr = (column fr c \<noteq> None)"
  by (simp add: has_col_def column_def map_of_eq_None_iff)

lemma map_of_replace:
  "map_of (map (\<lambda>p. if fst p = c then (c, v) else p) ps) c' =
     (if c' = c then (if c \<in> fst ` set ps then Some v else None) else map_of ps c')"
  by (induction ps) force+

lemma column_set_col:
  "column (set_col c v fr) c' = (if c' = c then Some v else column fr c')"
proof (cases "has_col c fr")
  case True
  then show ?thesis
    by (simp add: set_col_def column_def map_of_replace has_col_def)
next
  case False
  then have "map_of (cols fr) c = None"
    by (simp add: has_col_def map_of_eq_None_iff)
  with False show ?thesis
    by (simp add: set_col_def column_def map_add_def split: option.splits)
qed

lemma nrows_set_col: "nrows (set_col c v fr) = nrows fr"
  by (simp add: set_col_def)

lemma labels_replace: "map (fst \<circ> (\<lambda>p. if fst p = c then (c, v) else p)) ps = map fst ps"
  by (induction ps) auto

lemma distinct_labels_set_col:
  "distinct_labels fr \<Longrightarrow> distinct_labels (set_col c v fr)"
  by (simp add: distinct_labels_def set_col_def labels_replace has_col_def)

lemma filter_label:
  "distinct (map fst ps) \<Longrightarrow> map_of ps c = Some col \<Longrightarrow> filter (\<lambda>p. fst p = c) ps = [(c, col)]"
proof (induction ps)
  case Nil
  then show ?case by simp
next
  case (Cons p ps)
  show ?case
  proof (cases "fst p = c")
    case True
    with Cons.prems have "c \<notin> fst ` set ps"
      by simp
    then have "filter (\<lambda>q. fst q = c) ps = []"
      by (force simp: filter_empty_conv)
    with True Cons.prems show ?thesis
      by (cases p) auto
  next
    case False
    with Cons show ?thesis by (cases p) auto
  qed
qed

lemma coerce_flag_distinct:
  assumes "distinct_labels fr"
  shows "coerce_flag c fr = Inr (set_col c (flag_column fr c) fr)"
proof (cases "column fr c")
  case None
  then show ?thesis
    by (simp add: coerce_flag_def has_col_column flag_column_def)
next
  case (Some col)
  with assms have "filter (\<lambda>p. fst p = c) (cols fr) = [(c, col)]"
    by (simp add: distinct_labels_def column_def filter_label)
  with Some show ?thesis
    by (simp add: coerce_flag_def has_col_column flag_column_def)
qed

lemma column_fill_identity:
  "column (fill_identity c fr) c' =
     (if c' = c then Some (identity_column fr c) else column fr c')"
  by (auto simp: fill_identity_def has_col_column column_set_col identity_column_def)

lemma nrows_fill_identity: "nrows (fill_identity c fr) = nrows fr"
  by (simp add: fill_identity_def nrows_set_col)

lemma distinct_labels_fill_identity:
  "distinct_labels fr \<Longrightarrow> distinct_labels (fill_identity c fr)"
  by (simp add: fill_identity_def distinct_labels_set_col)

lemma identity_column_fill:
  "c \<noteq> c' \<Longrightarrow> identity_column (fill_identity c' fr) c = identity_column fr c"
  by (simp add: identity_column_def column_fill_identity nrows_fill_identity cong: option.case_cong)

lemma flag_column_fill:
  "c \<noteq> c' \<Longrightarrow> flag_column (fill_identity c' fr) c = flag_column fr c"
  by (simp add: flag_column_def column_fill_identity nrows_fill_identity cong: option.case_cong)

lemma flag_column_set_col:
  "c \<noteq> c' \<Longrightarrow> flag_column (set_col c' v fr) c = flag_column fr c"
  by (simp add: flag_column_def column_set_col nrows_set_col cong: option.case_cong)

lemma select_cols_distinct:
  assumes "distinct_labels fr" and "\<forall>c \<in> set cs. column fr c \<noteq> None"
  shows "select_cols cs fr = fr\<lparr>cols := map (\<lambda>c. (c, the (column fr c))) cs\<rparr>"
proof -
  have "concat (map (\<lambda>c. filter (\<lambda>p. fst p = c) (cols fr)) cs) = map (\<lambda>c. (c, the (column fr c))) cs"
    using assms(2)
  proof (induction cs)
    case Nil
    then show ?case by simp
  next
    case (Cons c cs)
    then obtain col where col: "column fr c = Some col" by auto
    with assms(1) have "filter (\<lambda>p. fst p = c) (cols fr) = [(c, col)]"
      by (simp add: distinct_labels_def column_def filter_label)
    with Cons col show ?case by simp
  qed
  then show ?thesis by (simp add: select_cols_def)
qed

lemma label_neq:
  shows "FIRST \<noteq> LAST" "FIRST \<noteq> FILE" "FIRST \<noteq> SEEN" "FIRST \<noteq> INT_COL"
    "FIRST \<noteq> SAVE" "FIRST \<noteq> CONT" "LAST \<noteq> FIRST" "LAST \<noteq> FILE"
    "LAST \<noteq> SEEN" "LAST \<noteq> INT_COL" "LAST \<noteq> SAVE" "LAST \<noteq> CONT"
    "FILE \<noteq> FIRST" "FILE \<noteq> LAST" "FILE \<noteq> SEEN" "FILE \<noteq> INT_COL"
    "FILE \<noteq> SAVE" "FILE \<noteq> CONT" "SEEN \<noteq> FIRST" "SEEN \<noteq> LAST"
    "SEEN \<noteq> FILE" "SEEN \<noteq> INT_COL" "SEEN \<noteq> SAVE" "SEEN \<noteq> CONT"
    "INT_COL \<noteq> FIRST" "INT_COL \<noteq> LAST" "INT_COL \<noteq> FILE" "INT_COL \<noteq> SEEN"
    "INT_COL \<noteq> SAVE" "INT_COL \<noteq> CONT" "SAVE \<noteq> FIRST" "SAVE \<noteq> LAST"
    "SAVE \<noteq> FILE" "SAVE \<noteq> SEEN" "SAVE \<noteq> INT_COL" "SAVE \<noteq> CONT"
    "CONT \<noteq> FIRST" "CONT \<noteq> LAST" "CONT \<noteq> FILE" "CONT \<noteq> SEEN"
    "CONT \<noteq> INT_COL" "CONT \<noteq> SAVE"
  by (simp_all add: FIRST_def LAST_def FILE_def SEEN_def INT_COL_def SAVE_def CONT_def)

lemma ensure_schema_distinct:
  assumes "distinct_labels fr"
  shows "ensure_schema fr =
     Inr \<lparr>nrows = nrows fr,
          cols = [(FIRST, identity_column fr FIRST), (LAST, identity_column fr LAST),
                  (FILE, identity_column fr FILE),
                  (SEEN, flag_column fr SEEN), (INT_COL, flag_column fr INT_COL),
                  (SAVE, flag_column fr SAVE), (CONT, flag_column fr CONT)]\<rparr>"
proof -
  define d3 where "d3 = fold fill_identity [FIRST, LAST, FILE] fr"
  have d3_distinct: "distinct_labels d3"
    by (simp add: d3_def distinct_labels_fill_identity assms)
  have d3_nrows: "nrows d3 = nrows fr"
    by (simp add: d3_def nrows_fill_identity)
  have d3_col: "column d3 c =
      (if c = FILE then Some (identity_column fr FILE)
       else if c = LAST then Some (identity_column fr LAST)
       else if c = FIRST then Some (identity_column fr FIRST) else column fr c)" for c
    by (simp add: d3_def column_fill_identity identity_column_fill label_neq)
  define d4 where "d4 = set_col SEEN (flag_column d3 SEEN) d3"
  define d5 where "d5 = set_col INT_COL (flag_column d4 INT_COL) d4"
  define d6 where "d6 = set_col SAVE (flag_column d5 SAVE) d5"
  define d7 where "d7 = set_col CONT (flag_column d6 CONT) d6"
  have dist: "distinct_labels d4" "distinct_labels d5" "distinct_labels d6" "distinct_labels d7"
    by (simp_all add: d4_def d5_def d6_def d7_def distinct_labels_set_col d3_distinct)
  have flags: "coerce_flags BOOL_COLS d3 = Inr d7"
    by (simp add: BOOL_COLS_def coerce_flag_distinct d3_distinct dist
        d4_def [symmetric] d5_def [symmetric] d6_def [symmetric] d7_def [symmetric])
  have f4: "flag_column d3 SEEN = flag_column fr SEEN"
    by (simp add: d3_def flag_column_fill label_neq)
  have f5: "flag_column d4 INT_COL = flag_column fr INT_COL"
    by (simp add: d4_def d3_def flag_column_set_col flag_column_fill label_neq)
  have f6: "flag_column d5 SAVE = flag_column fr SAVE"
    by (simp add: d5_def d4_def d3_def flag_column_set_col flag_column_fill label_neq)
  have f7: "flag_column d6 CONT = flag_column fr CONT"
    by (simp add: d6_def d5_def d4_def d3_def flag_column_set_col flag_column_fill label_neq)
  have d4_col: "column d4 c = (if c = SEEN then Some (flag_column fr SEEN) else column d3 c)" for c
    by (simp add: d4_def column_set_col f4)
  have d5_col: "column d5 c =
      (if c = INT_COL then Some (flag_column fr INT_COL) else column d4 c)" for c
    by (simp add: d5_def column_set_col f5)
  have d6_col: "column d6 c = (if c = SAVE then Some (flag_column fr SAVE) else column d5 c)" for c
    by (simp add: d6_def column_set_col f6)
  have d7_col: "column d7 c =
      (if c = CONT then Some (flag_column fr CONT)
       else if c = SAVE then Some (flag_column fr SAVE)
       else if c = INT_COL then Some (flag_column fr INT_COL)
       else if c = SEEN then Some (flag_column fr SEEN)
       else column d3 c)" for c
    by (simp add: d7_def column_set_col f7 d6_col d5_col d4_col)
  have d7_nrows: "nrows d7 = nrows fr"
    by (simp add: d7_def d6_def d5_def d4_def nrows_set_col d3_nrows)
  have present: "\<forall>c \<in> set ALL_COLS. column d7 c \<noteq> None"
    by (simp add: ALL_COLS_def BOOL_COLS_def d7_col d3_col label_neq)
  have "select_cols ALL_COLS d7 = d7\<lparr>cols := map (\<lambda>c. (c, the (column d7 c))) ALL_COLS\<rparr>"
    by (rule select_cols_distinct [OF dist(4) present])
  also have "\<dots> = \<lparr>nrows = nrows fr,
          cols = [(FIRST, identity_column fr FIRST), (LAST, identity_column fr LAST),
                  (FILE, identity_column fr FILE),
                  (SEEN, flag_column fr SEEN), (INT_COL, flag_column fr INT_COL),
                  (SAVE, flag_column fr SAVE), (CONT, flag_column fr CONT)]\<rparr>"
    by (simp add: ALL_COLS_def BOOL_COLS_def d7_col d3_col d7_nrows [symmetric] label_neq)
  finally have sel: "select_cols ALL_COLS d7 = \<lparr>nrows = nrows fr,
          cols = [(FIRST, identity_column fr FIRST), (LAST, identity_column fr LAST),
                  (FILE, identity_column fr FILE),
                  (SEEN, flag_column fr SEEN), (INT_COL, flag_column fr INT_COL),
                  (SAVE, flag_column fr SAVE), (CONT, flag_column fr CONT)]\<rparr>" .
  show ?thesis
    unfolding ensure_schema_def d3_def [symmetric] flags by (simp add: sel)
qed

section \<open>Facts about the merge on the key\<close>

lemma changed_None: "changed (r, None)"
  by (simp add: changed_def)

lemma changed_Some: "changed (r, Some p) = flags_differ r p"
  by (simp add: changed_def flags_differ_def)

lemma filter_distinct_key:
  "distinct (map g xs) \<Longrightarrow>
     filter (\<lambda>x. g x = a) xs = (case find (\<lambda>x. g x = a) xs of None \<Rightarrow> [] | Some x \<Rightarrow> [x])"
proof (induction xs)
  case Nil
  then show ?case by simp
next
  case (Cons x xs)
  show ?case
  proof (cases "g x = a")
    case True
    with Cons.prems have "a \<notin> g ` set xs" by auto
    then have "filter (\<lambda>y. g y = a) xs = []"
      by (auto simp: filter_empty_conv)
    with True show ?thesis by simp
  next
    case False
    with Cons show ?thesis by simp
  qed
qed

lemma match_row_distinct:
  assumes "distinct (map kb right)"
  shows "match_row ka kb right l = [(l, find (\<lambda>r. kb r = ka l) right)]"
  by (simp add: match_row_def filter_distinct_key [OF assms] split: option.splits)

lemma match_row_changed:
  "(\<exists>x \<in> set (match_row k k prev r). changed x) = row_changed prev r"
proof (cases "filter (\<lambda>p. k p = k r) prev")
  case Nil
  then have "k r \<notin> k ` set prev"
    by (auto simp: filter_empty_conv)
  with Nil show ?thesis
    by (auto simp: match_row_def row_changed_def changed_None)
next
  case (Cons m ms)
  have "set (m # ms) = {p \<in> set prev. k p = k r}"
    unfolding Cons [symmetric] by simp
  then have eq: "set (match_row k k prev r) = (\<lambda>p. (r, Some p)) ` {p \<in> set prev. k p = k r}"
    by (simp only: match_row_def Cons list.case set_map)
  have "m \<in> set (filter (\<lambda>p. k p = k r) prev)"
    by (simp add: Cons)
  then have "m \<in> set prev" and "k m = k r"
    by simp_all
  then have "k r \<in> k ` set prev"
    by (metis imageI)
  then show ?thesis
    by (auto simp: eq row_changed_def changed_Some)
qed

lemma fst_match_row: "x \<in> set (match_row ka kb right l) \<Longrightarrow> fst x = l"
  by (auto simp: match_row_def split: list.splits)

lemma set_diff_match:
  "set (map fst (filter changed (concat (map (match_row k k prev) cur))))
     = {r \<in> set cur. row_changed prev r}"
proof (induction cur)
  case Nil
  then show ?case by simp
next
  case (Cons r cur)
  have "fst ` {x \<in> set (match_row k k prev r). changed x} = (if row_changed prev r then {r} else {})"
    using match_row_changed [of prev r] fst_match_row [of _ k k prev r]
    by (auto simp: image_iff)
  with Cons show ?case
    by (auto simp: image_Un Collect_disj_eq)
qed

lemma diff_match_distinct:
  assumes "distinct (map k prev)"
  shows "map fst (filter changed (concat (map (match_row k k prev) cur)))
     = filter (row_changed prev) cur"
proof (induction cur)
  case Nil
  then show ?case by simp
next
  case (Cons r cur)
  have "changed (r, find (\<lambda>p. k p = k r) prev) = row_changed prev r"
    using match_row_changed [of prev r] by (simp add: match_row_distinct [OF assms])
  with Cons show ?case
    by (simp add: match_row_distinct [OF assms])
qed

section \<open>The identity key (C6)\<close>




section \<open>The schema normaliser (C7, C8)\<close>

lemma to_flag_vocabulary:
  "to_flag x = CBool (str_lower (str_strip (astype_str x)) \<in> set [''true'', ''1'', ''yes'', ''y''])"
  by (simp add: to_flag_def flag_vocabulary_def)

lemma to_flag_CBool: "to_flag (CBool b) = CBool b"
  by (cases b) (simp_all add: to_flag_def flag_vocabulary_def str_strip_def is_space_def
      str_lower_def lower_char_def)

lemma to_flag_idem: "to_flag (to_flag x) = to_flag x"
  by (simp add: to_flag_vocabulary [of x] to_flag_CBool)

lemma map_to_flag_flag_column: "map to_flag (flag_column fr c) = flag_column fr c"
  by (simp add: flag_column_def to_flag_CBool to_flag_idem split: option.splits)

lemma identity_column_Some: "column g c = Some col \<Longrightarrow> identity_column g c = col"
  by (simp add: identity_column_def)

lemma flag_column_Some: "column g c = Some col \<Longrightarrow> flag_column g c = map to_flag col"
  by (simp add: flag_column_def)



text \<open>
  C8: normalising twice is normalising once. On every frame whose labels are all
  different \<^verbatim>\<open>_ensure_schema\<close> returns a frame, and on that frame it returns the same
  frame again.
\<close>

theorem ensure_schema_idempotent:
  assumes "distinct_labels fr"
  shows "\<exists>out. ensure_schema fr = Inr out \<and> ensure_schema out = Inr out"
proof -
  define out where "out = \<lparr>nrows = nrows fr,
          cols = [(FIRST, identity_column fr FIRST), (LAST, identity_column fr LAST),
                  (FILE, identity_column fr FILE),
                  (SEEN, flag_column fr SEEN), (INT_COL, flag_column fr INT_COL),
                  (SAVE, flag_column fr SAVE), (CONT, flag_column fr CONT)]\<rparr>"
  have first: "ensure_schema fr = Inr out"
    unfolding out_def by (rule ensure_schema_distinct [OF assms])
  have dist: "distinct_labels out"
    by (simp add: out_def distinct_labels_def label_neq)
  have out_cols: "column out FIRST = Some (identity_column fr FIRST)"
    "column out LAST = Some (identity_column fr LAST)"
    "column out FILE = Some (identity_column fr FILE)"
    "column out SEEN = Some (flag_column fr SEEN)"
    "column out INT_COL = Some (flag_column fr INT_COL)"
    "column out SAVE = Some (flag_column fr SAVE)"
    "column out CONT = Some (flag_column fr CONT)"
    by (simp_all add: out_def column_def label_neq)
  have ids: "identity_column out FIRST = identity_column fr FIRST"
    "identity_column out LAST = identity_column fr LAST"
    "identity_column out FILE = identity_column fr FILE"
    by (simp_all add: identity_column_Some out_cols)
  have flags: "flag_column out SEEN = flag_column fr SEEN"
    "flag_column out INT_COL = flag_column fr INT_COL"
    "flag_column out SAVE = flag_column fr SAVE"
    "flag_column out CONT = flag_column fr CONT"
    by (simp_all add: flag_column_Some out_cols map_to_flag_flag_column)
  have "ensure_schema out = Inr out"
    using ensure_schema_distinct [OF dist] by (simp add: ids flags) (simp add: out_def)
  with first show ?thesis by blast
qed

text \<open>The theorem at a frame with one flag column and one identity column.\<close>

theorem ensure_schema_idempotent_witness:
  "distinct_labels \<lparr>nrows = 1, cols = [(''seen'', [CStr ''y'']), (''first_name'', [CStr ''Jane''])]\<rparr>
   \<and> (\<exists>out. ensure_schema \<lparr>nrows = 1,
               cols = [(''seen'', [CStr ''y'']), (''first_name'', [CStr ''Jane''])]\<rparr> = Inr out
            \<and> ensure_schema out = Inr out)"
proof -
  have d: "distinct_labels \<lparr>nrows = 1,
      cols = [(''seen'', [CStr ''y'']), (''first_name'', [CStr ''Jane''])]\<rparr>"
    by (simp add: distinct_labels_def)
  from ensure_schema_idempotent [OF d] d show ?thesis by simp
qed

section \<open>The diff (C4, C5)\<close>

lemmas text_defs = str_strip_def is_space_def str_lower_def lower_char_def

lemma key_jane: "key jane = ''jane||doe||https://x/cv.pdf''"
  by (simp add: jane_def key_def text_defs)

lemma key_amir: "key amir = ''amir||khan||https://x/amir.pdf''"
  by (simp add: amir_def key_def text_defs)

lemma k_with_key: "k (with_key r) = key r"
  by (simp add: with_key_def)

lemma flags_with_key:
  "seen (with_key r) = seen r" "intend_view (with_key r) = intend_view r"
  "cv_saved (with_key r) = cv_saved r" "contacted (with_key r) = contacted r"
  by (simp_all add: with_key_def)

lemma key_update_flags:
  "key (r\<lparr>seen := a\<rparr>) = key r" "key (r\<lparr>intend_view := a\<rparr>) = key r"
  "key (r\<lparr>cv_saved := a\<rparr>) = key r" "key (r\<lparr>contacted := a\<rparr>) = key r"
  by (simp_all add: key_def)

text \<open>
  C4: with no snapshot yet, or an empty one, \<^verbatim>\<open>_diff_rows\<close> returns no row. With a
  snapshot that has rows it returns exactly the rows of the current view that are changed
  against it (\<open>row_changed\<close>): those for which a row of the snapshot with the same key
  differs in at least one of the four flags, together with those whose key is on no row
  of the snapshot. When the keys of the snapshot are all different the result is those
  rows of the view, each once, in the order of the view.
\<close>

theorem diff_rows_changed_rows:
  "diff_rows None cur = [] \<and> diff_rows (Some []) cur = []
   \<and> (prev \<noteq> [] \<longrightarrow>
        set (diff_rows (Some prev) cur) = {r \<in> set cur. row_changed prev r})
   \<and> (prev \<noteq> [] \<and> distinct (map k prev) \<longrightarrow>
        diff_rows (Some prev) cur = filter (row_changed prev) cur)"
  by (simp add: diff_rows_def merge_left_def set_diff_match diff_match_distinct
      del: set_map set_filter set_concat)

text \<open>
  The theorem at a view where Jane Doe has been ticked as seen, against no snapshot, an
  empty snapshot, a snapshot of both rows and a snapshot of Jane Doe alone.
\<close>

theorem diff_rows_changed_rows_witness:
  "diff_rows None [with_key (jane\<lparr>seen := True\<rparr>), with_key amir] = []
   \<and> diff_rows (Some []) [with_key (jane\<lparr>seen := True\<rparr>), with_key amir] = []
   \<and> diff_rows (Some [with_key jane, with_key amir])
        [with_key (jane\<lparr>seen := True\<rparr>), with_key amir] = [with_key (jane\<lparr>seen := True\<rparr>)]
   \<and> diff_rows (Some [with_key jane]) [with_key (jane\<lparr>seen := True\<rparr>), with_key amir]
        = [with_key (jane\<lparr>seen := True\<rparr>), with_key amir]"
proof -
  have d: "distinct (map k [with_key jane, with_key amir])" "distinct (map k [with_key jane])"
    by (simp_all add: k_with_key key_jane key_amir)
  have ne: "[with_key jane, with_key amir] \<noteq> []" "[with_key jane] \<noteq> []"
    by simp_all
  have r1: "row_changed [with_key jane, with_key amir] (with_key (jane\<lparr>seen := True\<rparr>))"
    "\<not> row_changed [with_key jane, with_key amir] (with_key amir)"
    "row_changed [with_key jane] (with_key (jane\<lparr>seen := True\<rparr>))"
    "row_changed [with_key jane] (with_key amir)"
    by (simp_all add: row_changed_def flags_differ_def k_with_key flags_with_key
        key_update_flags key_jane key_amir) (simp_all add: jane_def)
  from diff_rows_changed_rows [of "[with_key (jane\<lparr>seen := True\<rparr>), with_key amir]"
      "[with_key jane, with_key amir]"]
    diff_rows_changed_rows [of "[with_key (jane\<lparr>seen := True\<rparr>), with_key amir]"
      "[with_key jane]"] d ne r1
  show ?thesis by simp
qed

text \<open>
  C5 asks that the diff be empty exactly when the flags agree on every key that the
  snapshot and the view share. The program at a snapshot and a view that share no key:
  the diff is the row of the view, not empty.
\<close>

theorem diff_rows_new_key_reported:
  "diff_rows (Some [with_key jane]) [with_key amir] = [with_key amir]
   \<and> k (with_key jane) \<noteq> k (with_key amir)"
  by (simp add: diff_rows_def merge_left_def match_row_def changed_def k_with_key
      key_jane key_amir)

section \<open>The optimistic merge (C10)\<close>

lemma take_flags_find:
  "take_flags (r, x) =
     (case x of None \<Rightarrow> r
      | Some d \<Rightarrow> r\<lparr>seen := seen d, intend_view := intend_view d,
                       cv_saved := cv_saved d, contacted := contacted d\<rparr>)"
  by (simp add: take_flags_def split: option.splits)

lemma optimistic_merge_distinct:
  assumes "distinct (map k changed_rows)"
  shows "optimistic_merge full changed_rows =
           map (\<lambda>r. take_flags (r, find (\<lambda>d. k d = key r) changed_rows)) full"
  by (induction full)
    (simp_all add: optimistic_merge_def merge_left_def match_row_distinct [OF assms])

lemma identity_take_flags:
  "first_name (take_flags (r, x)) = first_name r"
  "last_name (take_flags (r, x)) = last_name r"
  "file_name (take_flags (r, x)) = file_name r"
  by (simp_all add: take_flags_def split: option.splits)

text \<open>
  C10: when no key is on two of the changed rows and no key is on two rows of the table of
  the session, the optimistic merge keeps the number of rows of the table, their order
  and their first name, last name and file URL; a row whose key is on a changed row takes
  the four flags of that changed row, and every other row is unchanged.
\<close>

theorem optimistic_merge_frame:
  assumes "distinct (map k changed_rows)" and "distinct (map key full)"
  shows "length (optimistic_merge full changed_rows) = length full
       \<and> map first_name (optimistic_merge full changed_rows) = map first_name full
       \<and> map last_name (optimistic_merge full changed_rows) = map last_name full
       \<and> map file_name (optimistic_merge full changed_rows) = map file_name full
       \<and> optimistic_merge full changed_rows =
           map (\<lambda>r. case find (\<lambda>d. k d = key r) changed_rows of
                       None \<Rightarrow> r
                     | Some d \<Rightarrow> r\<lparr>seen := seen d, intend_view := intend_view d,
                                      cv_saved := cv_saved d, contacted := contacted d\<rparr>) full"
proof -
  let ?out = "optimistic_merge full changed_rows"
  have eq: "?out = map (\<lambda>r. take_flags (r, find (\<lambda>d. k d = key r) changed_rows)) full"
    by (rule optimistic_merge_distinct [OF assms(1)])
  have len: "length ?out = length full"
    by (simp add: eq)
  have ids: "map first_name ?out = map first_name full" "map last_name ?out = map last_name full"
    "map file_name ?out = map file_name full"
    by (simp_all add: eq comp_def identity_take_flags)
  have "?out = map (\<lambda>r. case find (\<lambda>d. k d = key r) changed_rows of
                       None \<Rightarrow> r
                     | Some d \<Rightarrow> r\<lparr>seen := seen d, intend_view := intend_view d,
                                      cv_saved := cv_saved d, contacted := contacted d\<rparr>) full"
    by (simp only: eq take_flags_find)
  with len ids show ?thesis by blast
qed

text \<open>The theorem at the table of Jane Doe and Amir Khan, the latter ticked as contacted.\<close>

theorem optimistic_merge_frame_witness:
  "distinct (map k [with_key (amir\<lparr>contacted := True\<rparr>)]) \<and> distinct (map key [jane, amir])
   \<and> optimistic_merge [jane, amir] [with_key (amir\<lparr>contacted := True\<rparr>)]
       = [jane, amir\<lparr>contacted := True\<rparr>]"
proof -
  have d: "distinct (map k [with_key (amir\<lparr>contacted := True\<rparr>)])" "distinct (map key [jane, amir])"
    by (simp_all add: key_jane key_amir)
  from optimistic_merge_frame [OF d] d show ?thesis
    by (simp add: k_with_key key_update_flags key_jane key_amir flags_with_key)
qed

section \<open>The write with one refresh (C1)\<close>



lemma calls_remote_call: "calls (snd (remote_call c w)) = calls w @ [c]"
  by (simp add: remote_call_def)



lemma refresh_dbx_client_unfold:
  "refresh_dbx_client w =
     (if \<not> refresh_configured w then (None, w\<lparr>DBX := Some 0\<rparr>)
      else (case replies w (length (calls w)) of
              Ok \<Rightarrow> (None, w\<lparr>calls := calls w @ [Refresh], DBX := Some (Suc (length (calls w)))\<rparr>)
            | Raise e \<Rightarrow> (Some e, w\<lparr>calls := calls w @ [Refresh]\<rparr>)))"
  by (simp add: refresh_dbx_client_def access_token_from_refresh_def remote_call_def
      split: reply.splits)





lemma to_frame_distinct: "distinct_labels (to_frame rs)"
  by (simp add: to_frame_def distinct_labels_def label_neq)

lemma ensure_schema_to_frame: "ensure_schema (to_frame rs) = Inr (to_frame rs)"
proof -
  have cols: "column (to_frame rs) FIRST = Some (map first_name rs)"
    "column (to_frame rs) LAST = Some (map last_name rs)"
    "column (to_frame rs) FILE = Some (map file_name rs)"
    "column (to_frame rs) SEEN = Some (map (\<lambda>r. CBool (seen r)) rs)"
    "column (to_frame rs) INT_COL = Some (map (\<lambda>r. CBool (intend_view r)) rs)"
    "column (to_frame rs) SAVE = Some (map (\<lambda>r. CBool (cv_saved r)) rs)"
    "column (to_frame rs) CONT = Some (map (\<lambda>r. CBool (contacted r)) rs)"
    by (simp_all add: to_frame_def column_def label_neq)
  have "ensure_schema (to_frame rs) =
      Inr \<lparr>nrows = nrows (to_frame rs),
          cols = [(FIRST, map first_name rs), (LAST, map last_name rs), (FILE, map file_name rs),
                  (SEEN, map (\<lambda>r. CBool (seen r)) rs),
                  (INT_COL, map (\<lambda>r. CBool (intend_view r)) rs),
                  (SAVE, map (\<lambda>r. CBool (cv_saved r)) rs),
                  (CONT, map (\<lambda>r. CBool (contacted r)) rs)]\<rparr>"
    by (simp add: ensure_schema_distinct [OF to_frame_distinct] identity_column_Some
        flag_column_Some cols to_flag_CBool comp_def)
  then show ?thesis by (simp add: to_frame_def)
qed







section \<open>The autosave pass (C2, C3, C9)\<close>

lemma write_state_df_to_frame:
  "write_state_df (to_frame t) w =
     Inr (if DBX w = None then ((False, Some ''Dropbox not configured''), w)
          else upload_with_auto_refresh (flags_astype_int (to_frame t)) (STATE_DBX_PATH w) w)"
  by (simp add: write_state_df_def ensure_schema_to_frame split: option.splits)

lemma diff_rows_nonempty_snapshot: "diff_rows prev cur \<noteq> [] \<Longrightarrow> prev \<noteq> None"
  by (cases prev) (simp_all add: diff_rows_def)

lemma pass_idle:
  assumes "snapshot_all s \<noteq> None"
    and "\<not> autosave s \<or> diff_rows (snapshot_all s) (map with_key edited) = []
         \<or> now - last_save_ts s < AUTOSAVE_DEBOUNCE_SEC"
  shows "autosave_pass now edited s w = Inr (s, w, None)"
  using assms by (auto simp: autosave_pass_def sync_block_def Let_def)

lemma pass_writes:
  assumes "autosave s"
    and "diff_rows (snapshot_all s) (map with_key edited) \<noteq> []"
    and "AUTOSAVE_DEBOUNCE_SEC \<le> now - last_save_ts s"
    and "write_state_df (to_frame (optimistic_merge (df s)
            (diff_rows (snapshot_all s) (map with_key edited)))) w = Inr ((ok, err), w')"
  shows "autosave_pass now edited s w =
     Inr (if ok then s\<lparr>df := optimistic_merge (df s)
                              (diff_rows (snapshot_all s) (map with_key edited)),
                        last_save_ts := now, snapshot_all := Some (map with_key edited)\<rparr>
          else s\<lparr>last_save_ts := now\<rparr>,
          w',
          Some (if ok then Toast (length (diff_rows (snapshot_all s) (map with_key edited)))
                else ErrorBox (''Auto-save failed: '' @ fmt_err err)))"
proof -
  from assms(2) have "snapshot_all s \<noteq> None"
    by (rule diff_rows_nonempty_snapshot)
  with assms show ?thesis
    by (auto simp: autosave_pass_def sync_block_def Let_def)
qed

lemma diff_rows_distinct:
  "prev \<noteq> [] \<Longrightarrow> distinct (map k prev) \<Longrightarrow>
     diff_rows (Some prev) cur = filter (row_changed prev) cur"
  by (simp add: diff_rows_def merge_left_def diff_match_distinct)

lemmas row_eval = row_changed_def flags_differ_def k_with_key flags_with_key key_update_flags
  key_jane key_amir

lemma diff_first_edit:
  "diff_rows (Some [with_key jane, with_key amir]) [with_key (jane\<lparr>seen := True\<rparr>), with_key amir]
     = [with_key (jane\<lparr>seen := True\<rparr>)]"
  by (simp add: diff_rows_distinct row_eval) (simp add: jane_def)

lemma diff_second_edit:
  "diff_rows (Some [with_key (jane\<lparr>seen := True\<rparr>), with_key amir])
       [with_key (jane\<lparr>seen := True\<rparr>), with_key (amir\<lparr>seen := True\<rparr>)]
     = [with_key (amir\<lparr>seen := True\<rparr>)]"
  by (simp add: diff_rows_distinct row_eval) (simp add: amir_def)

lemma diff_unfiltered:
  "diff_rows (Some [with_key jane]) [with_key jane, with_key amir] = [with_key amir]"
  by (simp add: diff_rows_distinct row_eval)

lemma merge_eval:
  "optimistic_merge [jane, amir] [with_key (jane\<lparr>seen := True\<rparr>)] = [jane\<lparr>seen := True\<rparr>, amir]"
  "optimistic_merge [jane\<lparr>seen := True\<rparr>, amir] [with_key (amir\<lparr>seen := True\<rparr>)]
     = [jane\<lparr>seen := True\<rparr>, amir\<lparr>seen := True\<rparr>]"
  "optimistic_merge [jane, amir] [with_key amir] = [jane, amir]"
  by (simp_all add: optimistic_merge_distinct take_flags_find row_eval)

lemma write_ok:
  assumes "DBX w \<noteq> None" and "STATE_DBX_PATH w = Some ''/state.csv''" and "replies w = (\<lambda>n. Ok)"
  shows "write_state_df (to_frame t) w =
     Inr ((True, None), w\<lparr>calls := calls w @ [Upload (flags_astype_int (to_frame t)) ''/state.csv'']\<rparr>)"
  using assms
  by (simp add: write_state_df_to_frame upload_with_auto_refresh_def upload_once_def
      ensure_folder_tree_def remote_call_def dirname_def rstrip_slash_def)

lemma write_refresh_fails:
  "write_state_df (to_frame t) refresh_fails_world =
     Inr ((False, Some ''AuthError after refresh: 401 Client Error''),
          refresh_fails_world\<lparr>calls := [Upload (flags_astype_int (to_frame t)) ''/state.csv'', Refresh]\<rparr>)"
  by (simp add: write_state_df_to_frame upload_with_auto_refresh_def upload_once_def
      ensure_folder_tree_def refresh_dbx_client_unfold refresh_configured_def need_def
      remote_call_def dirname_def rstrip_slash_def refresh_fails_world_def)

lemma write_to_frame_returns:
  "\<exists>ok err w'. write_state_df (to_frame t) w = Inr ((ok, err), w')"
  by (metis write_state_df_to_frame surj_pair)

lemma first_pass_eval:
  "autosave_pass 1000 [jane\<lparr>seen := True\<rparr>, amir] s_saved ok_world =
     Inr (\<lparr>df = [jane\<lparr>seen := True\<rparr>, amir], last_save_ts = 1000,
           snapshot_all = Some [with_key (jane\<lparr>seen := True\<rparr>), with_key amir], autosave = True\<rparr>,
          ok_world\<lparr>calls :=
            [Upload (flags_astype_int (to_frame [jane\<lparr>seen := True\<rparr>, amir])) ''/state.csv'']\<rparr>,
          Some (Toast 1))"
proof -
  have h1: "autosave s_saved"
    by (simp add: s_saved_def)
  have snap: "snapshot_all s_saved = Some [with_key jane, with_key amir]" "df s_saved = [jane, amir]"
    by (simp_all add: s_saved_def)
  have d: "diff_rows (snapshot_all s_saved) (map with_key [jane\<lparr>seen := True\<rparr>, amir])
             = [with_key (jane\<lparr>seen := True\<rparr>)]"
    by (simp add: snap diff_first_edit)
  have h2: "diff_rows (snapshot_all s_saved) (map with_key [jane\<lparr>seen := True\<rparr>, amir]) \<noteq> []"
    unfolding d by simp
  have m: "optimistic_merge (df s_saved)
              (diff_rows (snapshot_all s_saved) (map with_key [jane\<lparr>seen := True\<rparr>, amir]))
             = [jane\<lparr>seen := True\<rparr>, amir]"
    by (simp add: snap diff_first_edit merge_eval)
  have h3: "AUTOSAVE_DEBOUNCE_SEC \<le> 1000 - last_save_ts s_saved"
    by (simp add: s_saved_def AUTOSAVE_DEBOUNCE_SEC_def)
  have h4: "write_state_df (to_frame (optimistic_merge (df s_saved)
              (diff_rows (snapshot_all s_saved) (map with_key [jane\<lparr>seen := True\<rparr>, amir]))))
            ok_world =
          Inr ((True, None),
            ok_world\<lparr>calls := calls ok_world @
              [Upload (flags_astype_int (to_frame [jane\<lparr>seen := True\<rparr>, amir])) ''/state.csv'']\<rparr>)"
    unfolding m by (rule write_ok) (simp_all add: ok_world_def)
  show ?thesis
    unfolding pass_writes [OF h1 h2 h3 h4] m d
    by (simp add: s_saved_def ok_world_def merge_eval)
qed

lemma second_pass_early:
  "t2 - 1000 < AUTOSAVE_DEBOUNCE_SEC \<Longrightarrow>
   autosave_pass t2 e
     \<lparr>df = [jane\<lparr>seen := True\<rparr>, amir], last_save_ts = 1000,
      snapshot_all = Some [with_key (jane\<lparr>seen := True\<rparr>), with_key amir], autosave = True\<rparr> w
   = Inr (\<lparr>df = [jane\<lparr>seen := True\<rparr>, amir], last_save_ts = 1000,
           snapshot_all = Some [with_key (jane\<lparr>seen := True\<rparr>), with_key amir], autosave = True\<rparr>,
          w, None)"
  by (rule pass_idle) simp_all

lemma second_pass_late:
  assumes "AUTOSAVE_DEBOUNCE_SEC \<le> t2 - 1000"
  shows "autosave_pass t2 [jane\<lparr>seen := True\<rparr>, amir\<lparr>seen := True\<rparr>]
     \<lparr>df = [jane\<lparr>seen := True\<rparr>, amir], last_save_ts = 1000,
      snapshot_all = Some [with_key (jane\<lparr>seen := True\<rparr>), with_key amir], autosave = True\<rparr>
     (ok_world\<lparr>calls := cs\<rparr>)
   = Inr (\<lparr>df = [jane\<lparr>seen := True\<rparr>, amir\<lparr>seen := True\<rparr>], last_save_ts = t2,
           snapshot_all = Some [with_key (jane\<lparr>seen := True\<rparr>), with_key (amir\<lparr>seen := True\<rparr>)],
           autosave = True\<rparr>,
          ok_world\<lparr>calls := cs @
            [Upload (flags_astype_int (to_frame [jane\<lparr>seen := True\<rparr>, amir\<lparr>seen := True\<rparr>]))
               ''/state.csv'']\<rparr>,
          Some (Toast 1))"
proof -
  let ?s = "\<lparr>df = [jane\<lparr>seen := True\<rparr>, amir], last_save_ts = 1000,
      snapshot_all = Some [with_key (jane\<lparr>seen := True\<rparr>), with_key amir], autosave = True\<rparr>"
  let ?e = "[jane\<lparr>seen := True\<rparr>, amir\<lparr>seen := True\<rparr>]"
  have h1: "autosave ?s"
    by simp
  have d: "diff_rows (snapshot_all ?s) (map with_key ?e) = [with_key (amir\<lparr>seen := True\<rparr>)]"
    by (simp add: diff_second_edit)
  have h2: "diff_rows (snapshot_all ?s) (map with_key ?e) \<noteq> []"
    unfolding d by simp
  have m: "optimistic_merge (df ?s) (diff_rows (snapshot_all ?s) (map with_key ?e)) = ?e"
    by (simp add: diff_second_edit merge_eval)
  have h3: "AUTOSAVE_DEBOUNCE_SEC \<le> t2 - last_save_ts ?s"
    using assms by simp
  have h4: "write_state_df (to_frame (optimistic_merge (df ?s)
              (diff_rows (snapshot_all ?s) (map with_key ?e)))) (ok_world\<lparr>calls := cs\<rparr>) =
          Inr ((True, None),
            ok_world\<lparr>calls := cs\<rparr>\<lparr>calls := calls (ok_world\<lparr>calls := cs\<rparr>) @
              [Upload (flags_astype_int (to_frame ?e)) ''/state.csv'']\<rparr>)"
    unfolding m by (rule write_ok) (simp_all add: ok_world_def)
  show ?thesis
    unfolding pass_writes [OF h1 h2 h3 h4] m d
    by (simp add: merge_eval)
qed

text \<open>
  C2: in a pass that writes (autosave on, a non-empty diff, the debounce interval elapsed)
  and whose write fails, for whatever reason and with whatever message, the table of the
  session is again what it was before the optimistic merge, the snapshot is unchanged and
  the time of the attempt is recorded: the session is the one before the pass with
  \<^verbatim>\<open>last_save_ts\<close> set to the time of the pass, and the error is shown.
\<close>

theorem failed_write_rolls_back:
  assumes "autosave s"
    and "diff_rows (snapshot_all s) (map with_key edited) \<noteq> []"
    and "AUTOSAVE_DEBOUNCE_SEC \<le> now - last_save_ts s"
    and "write_state_df (to_frame (optimistic_merge (df s)
            (diff_rows (snapshot_all s) (map with_key edited)))) w = Inr ((False, err), w')"
  shows "\<exists>s'. autosave_pass now edited s w =
             Inr (s', w', Some (ErrorBox (''Auto-save failed: '' @ fmt_err err)))
           \<and> s' = s\<lparr>last_save_ts := now\<rparr>
           \<and> df s' = df s \<and> snapshot_all s' = snapshot_all s \<and> last_save_ts s' = now"
  using pass_writes [OF assms] by simp

text \<open>The theorem at a pass where Jane Doe is ticked and the refresh of the token fails.\<close>

theorem failed_write_rolls_back_witness:
  "autosave s_saved
   \<and> diff_rows (snapshot_all s_saved) (map with_key [jane\<lparr>seen := True\<rparr>, amir]) \<noteq> []
   \<and> AUTOSAVE_DEBOUNCE_SEC \<le> 1000 - last_save_ts s_saved
   \<and> pass_observed (autosave_pass 1000 [jane\<lparr>seen := True\<rparr>, amir] s_saved refresh_fails_world)
       = Inr (s_saved\<lparr>last_save_ts := 1000\<rparr>,
              [Upload (flags_astype_int (to_frame [jane\<lparr>seen := True\<rparr>, amir])) ''/state.csv'',
               Refresh],
              Some (ErrorBox ''Auto-save failed: AuthError after refresh: 401 Client Error''))"
proof -
  have h1: "autosave s_saved"
    by (simp add: s_saved_def)
  have snap: "snapshot_all s_saved = Some [with_key jane, with_key amir]" "df s_saved = [jane, amir]"
    by (simp_all add: s_saved_def)
  have h2: "diff_rows (snapshot_all s_saved) (map with_key [jane\<lparr>seen := True\<rparr>, amir]) \<noteq> []"
    by (simp add: snap diff_first_edit)
  have h3: "AUTOSAVE_DEBOUNCE_SEC \<le> 1000 - last_save_ts s_saved"
    by (simp add: s_saved_def AUTOSAVE_DEBOUNCE_SEC_def)
  have h4: "write_state_df (to_frame (optimistic_merge (df s_saved)
              (diff_rows (snapshot_all s_saved) (map with_key [jane\<lparr>seen := True\<rparr>, amir]))))
            refresh_fails_world =
          Inr ((False, Some ''AuthError after refresh: 401 Client Error''),
            refresh_fails_world\<lparr>calls :=
              [Upload (flags_astype_int (to_frame [jane\<lparr>seen := True\<rparr>, amir])) ''/state.csv'',
               Refresh]\<rparr>)"
    by (simp add: snap diff_first_edit merge_eval write_refresh_fails)
  from failed_write_rolls_back [OF h1 h2 h3 h4] h1 h2 h3 show ?thesis
    by (auto simp: pass_observed_def)
qed

text \<open>
  C3 asks that a write be issued only when a flag of some row differs between the
  snapshot and the view. The program at a session whose snapshot holds Jane Doe alone and
  a grid that returns the table of the session as it is a minute after the last save, the
  search cleared and no flag edited: the pass uploads the table and announces one saved
  change.
\<close>

theorem unedited_view_is_written:
  "df s_filtered = [jane, amir]
   \<and> snapshot_all s_filtered = Some [with_key jane]
   \<and> pass_observed (autosave_pass 1060 [jane, amir] s_filtered ok_world)
       = Inr (s_filtered\<lparr>last_save_ts := 1060, snapshot_all := Some [with_key jane, with_key amir]\<rparr>,
              [Upload (flags_astype_int (to_frame [jane, amir])) ''/state.csv''],
              Some (Toast 1))"
proof -
  have h1: "autosave s_filtered"
    by (simp add: s_filtered_def)
  have snap: "snapshot_all s_filtered = Some [with_key jane]" "df s_filtered = [jane, amir]"
    by (simp_all add: s_filtered_def)
  have d: "diff_rows (snapshot_all s_filtered) (map with_key [jane, amir]) = [with_key amir]"
    by (simp add: snap diff_unfiltered)
  have h2: "diff_rows (snapshot_all s_filtered) (map with_key [jane, amir]) \<noteq> []"
    unfolding d by simp
  have m: "optimistic_merge (df s_filtered)
              (diff_rows (snapshot_all s_filtered) (map with_key [jane, amir])) = [jane, amir]"
    by (simp add: snap diff_unfiltered merge_eval)
  have h3: "AUTOSAVE_DEBOUNCE_SEC \<le> 1060 - last_save_ts s_filtered"
    by (simp add: s_filtered_def AUTOSAVE_DEBOUNCE_SEC_def)
  have h4: "write_state_df (to_frame (optimistic_merge (df s_filtered)
              (diff_rows (snapshot_all s_filtered) (map with_key [jane, amir])))) ok_world =
          Inr ((True, None),
            ok_world\<lparr>calls := calls ok_world @
              [Upload (flags_astype_int (to_frame [jane, amir])) ''/state.csv'']\<rparr>)"
    unfolding m by (rule write_ok) (simp_all add: ok_world_def)
  show ?thesis
    unfolding pass_writes [OF h1 h2 h3 h4] m d
    by (simp add: pass_observed_def) (simp add: s_filtered_def ok_world_def merge_eval)
qed

text \<open>
  C9, as the claim has it, promises that two edits 0.1 s apart give one write holding both
  changes. The program on the session after the first draw, Jane Doe ticked at time 1000
  and Amir Khan ticked 0.1 s later: one upload, made by the first pass, in which Amir
  Khan is not ticked; the second pass writes nothing.
\<close>

theorem second_edit_not_in_the_write_counterexample:
  "pass_observed (two_passes 1000 [jane\<lparr>seen := True\<rparr>, amir]
       (1000 + 0.1) [jane\<lparr>seen := True\<rparr>, amir\<lparr>seen := True\<rparr>] s_saved ok_world)
   = Inr (\<lparr>df = [jane\<lparr>seen := True\<rparr>, amir], last_save_ts = 1000,
           snapshot_all = Some [with_key (jane\<lparr>seen := True\<rparr>), with_key amir], autosave = True\<rparr>,
          [Upload (flags_astype_int (to_frame [jane\<lparr>seen := True\<rparr>, amir])) ''/state.csv''],
          None)"
  by (simp add: two_passes_def first_pass_eval second_pass_early pass_observed_def
      AUTOSAVE_DEBOUNCE_SEC_def)

text \<open>
  C9 (amended): with the debounce interval 0.35 s and autosave on, let a first edit arrive
  in a pass at least 0.35 s after the last write attempt. That pass makes one remote write,
  of the table with the changes of the first edit. A pass that arrives 0.1 s later makes no
  write and leaves the session and the service as they are, whatever the grid returns: the
  second edit is in no write yet. A pass that arrives 0.4 s later with a second edit (a
  non-empty diff against the snapshot the first pass left) makes a second remote write: two
  writes.
\<close>

theorem debounce_two_edits:
  assumes "autosave s" and "AUTOSAVE_DEBOUNCE_SEC \<le> t - last_save_ts s"
    and "diff_rows (snapshot_all s) (map with_key e1) \<noteq> []"
  shows "\<exists>res w1 s1 n1.
           write_state_df (to_frame (optimistic_merge (df s)
               (diff_rows (snapshot_all s) (map with_key e1)))) w = Inr (res, w1)
         \<and> autosave_pass t e1 s w = Inr (s1, w1, n1)
         \<and> autosave_pass (t + 0.1) e2 s1 w1 = Inr (s1, w1, None)
         \<and> (diff_rows (snapshot_all s1) (map with_key e2) \<noteq> [] \<longrightarrow>
              (\<exists>res2 w2 s2 n2.
                  write_state_df (to_frame (optimistic_merge (df s1)
                      (diff_rows (snapshot_all s1) (map with_key e2)))) w1 = Inr (res2, w2)
                \<and> autosave_pass (t + 0.4) e2 s1 w1 = Inr (s2, w2, n2)))"
proof -
  let ?c1 = "diff_rows (snapshot_all s) (map with_key e1)"
  obtain ok err w1 where
    wr: "write_state_df (to_frame (optimistic_merge (df s) ?c1)) w = Inr ((ok, err), w1)"
    using write_to_frame_returns by blast
  define s1 where "s1 = (if ok then s\<lparr>df := optimistic_merge (df s) ?c1,
                        last_save_ts := t, snapshot_all := Some (map with_key e1)\<rparr>
                   else s\<lparr>last_save_ts := t\<rparr>)"
  define n1 where "n1 = Some (if ok then Toast (length ?c1)
                else ErrorBox (''Auto-save failed: '' @ fmt_err err))"
  have p1: "autosave_pass t e1 s w = Inr (s1, w1, n1)"
    unfolding s1_def n1_def by (rule pass_writes [OF assms(1) assms(3) assms(2) wr])
  from assms(3) have "snapshot_all s \<noteq> None"
    by (rule diff_rows_nonempty_snapshot)
  then have snap1: "snapshot_all s1 \<noteq> None"
    by (simp add: s1_def)
  have ts1: "last_save_ts s1 = t" and auto1: "autosave s1"
    using assms(1) by (simp_all add: s1_def)
  have p2: "autosave_pass (t + 0.1) e2 s1 w1 = Inr (s1, w1, None)"
    by (rule pass_idle [OF snap1]) (simp add: ts1 AUTOSAVE_DEBOUNCE_SEC_def)
  have p3: "\<exists>res2 w2 s2 n2.
              write_state_df (to_frame (optimistic_merge (df s1)
                  (diff_rows (snapshot_all s1) (map with_key e2)))) w1 = Inr (res2, w2)
            \<and> autosave_pass (t + 0.4) e2 s1 w1 = Inr (s2, w2, n2)"
    if c2: "diff_rows (snapshot_all s1) (map with_key e2) \<noteq> []"
  proof -
    obtain ok2 err2 w2 where
      wr2: "write_state_df (to_frame (optimistic_merge (df s1)
              (diff_rows (snapshot_all s1) (map with_key e2)))) w1 = Inr ((ok2, err2), w2)"
      using write_to_frame_returns by blast
    have late: "AUTOSAVE_DEBOUNCE_SEC \<le> t + 0.4 - last_save_ts s1"
      by (simp add: ts1 AUTOSAVE_DEBOUNCE_SEC_def)
    from pass_writes [OF auto1 c2 late wr2] wr2 show ?thesis
      by blast
  qed
  from wr p1 p2 p3 show ?thesis
    by blast
qed

text \<open>
  The theorem on the session after the first draw: two uploads when the second edit comes
  0.4 s after the first, and no call in a pass 0.1 s after the first.
\<close>

theorem debounce_two_edits_witness:
  "autosave s_saved \<and> AUTOSAVE_DEBOUNCE_SEC \<le> 1000 - last_save_ts s_saved
   \<and> diff_rows (snapshot_all s_saved) (map with_key [jane\<lparr>seen := True\<rparr>, amir]) \<noteq> []
   \<and> pass_observed (two_passes 1000 [jane\<lparr>seen := True\<rparr>, amir]
         (1000 + 0.4) [jane\<lparr>seen := True\<rparr>, amir\<lparr>seen := True\<rparr>] s_saved ok_world)
     = Inr (\<lparr>df = [jane\<lparr>seen := True\<rparr>, amir\<lparr>seen := True\<rparr>], last_save_ts = 1000 + 0.4,
             snapshot_all = Some [with_key (jane\<lparr>seen := True\<rparr>), with_key (amir\<lparr>seen := True\<rparr>)],
             autosave = True\<rparr>,
            [Upload (flags_astype_int (to_frame [jane\<lparr>seen := True\<rparr>, amir])) ''/state.csv'',
             Upload (flags_astype_int (to_frame [jane\<lparr>seen := True\<rparr>, amir\<lparr>seen := True\<rparr>]))
               ''/state.csv''],
            Some (Toast 1))
   \<and> autosave_pass (1000 + 0.1) [jane\<lparr>seen := True\<rparr>, amir\<lparr>seen := True\<rparr>]
         \<lparr>df = [jane\<lparr>seen := True\<rparr>, amir], last_save_ts = 1000,
          snapshot_all = Some [with_key (jane\<lparr>seen := True\<rparr>), with_key amir], autosave = True\<rparr>
         (ok_world\<lparr>calls :=
            [Upload (flags_astype_int (to_frame [jane\<lparr>seen := True\<rparr>, amir])) ''/state.csv'']\<rparr>)
     = Inr (\<lparr>df = [jane\<lparr>seen := True\<rparr>, amir], last_save_ts = 1000,
             snapshot_all = Some [with_key (jane\<lparr>seen := True\<rparr>), with_key amir], autosave = True\<rparr>,
            ok_world\<lparr>calls :=
              [Upload (flags_astype_int (to_frame [jane\<lparr>seen := True\<rparr>, amir])) ''/state.csv'']\<rparr>,
            None)"
proof -
  have h1: "autosave s_saved"
    by (simp add: s_saved_def)
  have h2: "AUTOSAVE_DEBOUNCE_SEC \<le> 1000 - last_save_ts s_saved"
    by (simp add: s_saved_def AUTOSAVE_DEBOUNCE_SEC_def)
  have h3: "diff_rows (snapshot_all s_saved) (map with_key [jane\<lparr>seen := True\<rparr>, amir]) \<noteq> []"
    by (simp add: s_saved_def diff_first_edit)
  from debounce_two_edits [OF h1 h2 h3, of ok_world "[jane\<lparr>seen := True\<rparr>, amir\<lparr>seen := True\<rparr>]"]
  obtain s1 w1 n1 where
    p1: "autosave_pass 1000 [jane\<lparr>seen := True\<rparr>, amir] s_saved ok_world = Inr (s1, w1, n1)"
    and p2: "autosave_pass (1000 + 0.1) [jane\<lparr>seen := True\<rparr>, amir\<lparr>seen := True\<rparr>] s1 w1
               = Inr (s1, w1, None)"
    by blast
  from p1 have s1: "s1 = \<lparr>df = [jane\<lparr>seen := True\<rparr>, amir], last_save_ts = 1000,
           snapshot_all = Some [with_key (jane\<lparr>seen := True\<rparr>), with_key amir], autosave = True\<rparr>"
    and w1: "w1 = ok_world\<lparr>calls :=
            [Upload (flags_astype_int (to_frame [jane\<lparr>seen := True\<rparr>, amir])) ''/state.csv'']\<rparr>"
    by (simp_all add: first_pass_eval)
  from p2 have early: "autosave_pass (1000 + 0.1) [jane\<lparr>seen := True\<rparr>, amir\<lparr>seen := True\<rparr>]
         \<lparr>df = [jane\<lparr>seen := True\<rparr>, amir], last_save_ts = 1000,
          snapshot_all = Some [with_key (jane\<lparr>seen := True\<rparr>), with_key amir], autosave = True\<rparr>
         (ok_world\<lparr>calls :=
            [Upload (flags_astype_int (to_frame [jane\<lparr>seen := True\<rparr>, amir])) ''/state.csv'']\<rparr>)
     = Inr (\<lparr>df = [jane\<lparr>seen := True\<rparr>, amir], last_save_ts = 1000,
             snapshot_all = Some [with_key (jane\<lparr>seen := True\<rparr>), with_key amir], autosave = True\<rparr>,
            ok_world\<lparr>calls :=
              [Upload (flags_astype_int (to_frame [jane\<lparr>seen := True\<rparr>, amir])) ''/state.csv'']\<rparr>,
            None)"
    unfolding s1 w1 .
  have late: "pass_observed (two_passes 1000 [jane\<lparr>seen := True\<rparr>, amir]
         (1000 + 0.4) [jane\<lparr>seen := True\<rparr>, amir\<lparr>seen := True\<rparr>] s_saved ok_world)
     = Inr (\<lparr>df = [jane\<lparr>seen := True\<rparr>, amir\<lparr>seen := True\<rparr>], last_save_ts = 1000 + 0.4,
             snapshot_all = Some [with_key (jane\<lparr>seen := True\<rparr>), with_key (amir\<lparr>seen := True\<rparr>)],
             autosave = True\<rparr>,
            [Upload (flags_astype_int (to_frame [jane\<lparr>seen := True\<rparr>, amir])) ''/state.csv'',
             Upload (flags_astype_int (to_frame [jane\<lparr>seen := True\<rparr>, amir\<lparr>seen := True\<rparr>]))
               ''/state.csv''],
            Some (Toast 1))"
    by (simp add: two_passes_def first_pass_eval second_pass_late pass_observed_def
        AUTOSAVE_DEBOUNCE_SEC_def)
  from h1 h2 h3 late early show ?thesis
    by (simp only: simp_thms)
qed

end
